theory Spec2Isabelle
  imports Complex_Main
begin

section \<open>Visibility engine: vectors, walls, rays\<close>

text \<open>
  The Python source computes with \<open>float\<close>. The embedding replaces every float by a
  real number and every float operation by the exact operation, so the theorems below
  are statements about the algorithm over the reals: rounding, signed zeros and NaN are
  outside the model. Infinite floats appear in one place only: a second reading of
  \<open>compute_visibility_polygon\<close>, further down, lets the facing angle be infinite and
  makes the error of \<open>math.sin\<close> and a loop that does not end into results.
\<close>

subsection \<open>Vec2\<close>

datatype Vec2 = Vec2 (vx: real) (vy: real)

definition add :: "Vec2 \<Rightarrow> Vec2 \<Rightarrow> Vec2" where
  "add a b = Vec2 (vx a + vx b) (vy a + vy b)"

definition sub :: "Vec2 \<Rightarrow> Vec2 \<Rightarrow> Vec2" where
  "sub a b = Vec2 (vx a - vx b) (vy a - vy b)"

definition mul :: "Vec2 \<Rightarrow> real \<Rightarrow> Vec2" where
  "mul a scalar = Vec2 (vx a * scalar) (vy a * scalar)"

definition cross :: "Vec2 \<Rightarrow> Vec2 \<Rightarrow> real" where
  "cross a b = vx a * vy b - vy a * vx b"

text \<open>\<open>Vec2.length\<close> is \<open>math.hypot(x, y)\<close>.\<close>

definition vec_length :: "Vec2 \<Rightarrow> real" where
  "vec_length v = sqrt ((vx v)\<^sup>2 + (vy v)\<^sup>2)"

text \<open>
  \<open>math.atan2(y, x)\<close>: the angle of the point \<open>(x, y)\<close>, by quadrant, with
  \<open>atan2(0, 0) = 0\<close>.
\<close>

definition atan2 :: "real \<Rightarrow> real \<Rightarrow> real" where
  "atan2 y x =
     (if 0 < x then arctan (y / x)
      else if x < 0 then (if 0 \<le> y then arctan (y / x) + pi else arctan (y / x) - pi)
      else if 0 < y then pi / 2
      else if y < 0 then - (pi / 2)
      else 0)"


definition from_angle :: "real \<Rightarrow> Vec2" where
  "from_angle theta = Vec2 (cos theta) (sin theta)"

subsection \<open>Segment and Wall\<close>

datatype Segment = Segment (seg_p1: Vec2) (seg_p2: Vec2)

record Wall =
  base_p1 :: Vec2
  base_p2 :: Vec2
  segment :: Segment
  dynamic :: bool
  rotation_center :: "Vec2 option"
  angular_speed :: real
  velocity :: Vec2
  angle :: real

text \<open>The constructor \<open>Wall(p1, p2, dynamic, rotation_center, angular_speed, velocity)\<close>;
  a missing velocity is the zero vector.\<close>

definition new_wall :: "Vec2 \<Rightarrow> Vec2 \<Rightarrow> bool \<Rightarrow> Vec2 option \<Rightarrow> real \<Rightarrow> Vec2 option \<Rightarrow> Wall" where
  "new_wall a b dyn rc w v =
     \<lparr>base_p1 = Vec2 (vx a) (vy a), base_p2 = Vec2 (vx b) (vy b),
      segment = Segment (Vec2 (vx a) (vy a)) (Vec2 (vx b) (vy b)),
      dynamic = dyn, rotation_center = rc, angular_speed = w,
      velocity = (case v of None \<Rightarrow> Vec2 0 0 | Some u \<Rightarrow> u), angle = 0\<rparr>"

definition rotate_around :: "Vec2 \<Rightarrow> Vec2 \<Rightarrow> real \<Rightarrow> Vec2" where
  "rotate_around point center ang =
     (let translated = sub point center;
          c = cos ang;
          s = sin ang;
          rotated = Vec2 (vx translated * c - vy translated * s)
                         (vx translated * s + vy translated * c)
      in add center rotated)"

text \<open>\<open>Wall.update(dt)\<close>: the two steps of the source, rotation then translation.\<close>

definition update_rotation :: "real \<Rightarrow> Wall \<Rightarrow> Wall" where
  "update_rotation dt w =
     (case rotation_center w of
        None \<Rightarrow> w
      | Some c \<Rightarrow>
          if angular_speed w \<noteq> 0 then
            (let ang = angle w + angular_speed w * dt
             in w\<lparr>angle := ang,
                  segment := Segment (rotate_around (base_p1 w) c ang)
                                     (rotate_around (base_p2 w) c ang)\<rparr>)
          else w)"

definition update_translation :: "real \<Rightarrow> Wall \<Rightarrow> Wall" where
  "update_translation dt w =
     (if vx (velocity w) \<noteq> 0 \<or> vy (velocity w) \<noteq> 0 then
        (let dp = mul (velocity w) dt
         in w\<lparr>segment := Segment (add (seg_p1 (segment w)) dp)
                                  (add (seg_p2 (segment w)) dp)\<rparr>)
      else w)"

definition update :: "real \<Rightarrow> Wall \<Rightarrow> Wall" where
  "update dt w =
     (if \<not> dynamic w then w else update_translation dt (update_rotation dt w))"

subsection \<open>Angles\<close>

text \<open>
  \<open>angle_diff\<close> runs two loops one after the other: the first adds \<open>2\<pi>\<close> while the
  difference is at most \<open>-\<pi>\<close>, the second subtracts \<open>2\<pi>\<close> while it exceeds \<open>\<pi>\<close>.
\<close>

definition up_steps :: "real \<Rightarrow> nat" where
  "up_steps d = nat (\<lfloor>(- pi - d) / (2 * pi)\<rfloor> + 1)"

definition down_steps :: "real \<Rightarrow> nat" where
  "down_steps d = nat (\<lfloor>(d - pi) / (2 * pi)\<rfloor> + 1)"

function angle_diff_up :: "real \<Rightarrow> real" where
  "angle_diff_up d = (if d \<le> - pi then angle_diff_up (d + 2 * pi) else d)"
  by pat_completeness auto
termination
proof (relation "measure up_steps")
  show "wf (measure up_steps)" by simp
next
  fix d :: real
  assume le: "d \<le> - pi"
  have "(- pi - (d + 2 * pi)) / (2 * pi) = (- pi - d) / (2 * pi) - 1"
    by (simp add: field_simps)
  then have fl: "\<lfloor>(- pi - (d + 2 * pi)) / (2 * pi)\<rfloor> = \<lfloor>(- pi - d) / (2 * pi)\<rfloor> - 1"
    by (simp only: floor_diff_one)
  have nonneg: "0 \<le> \<lfloor>(- pi - d) / (2 * pi)\<rfloor>"
    using le by simp
  have "up_steps (d + 2 * pi) < up_steps d"
    unfolding up_steps_def fl using nonneg by linarith
  then show "(d + 2 * pi, d) \<in> measure up_steps" by simp
qed

function angle_diff_down :: "real \<Rightarrow> real" where
  "angle_diff_down d = (if pi < d then angle_diff_down (d - pi * 2) else d)"
  by pat_completeness auto
termination
proof (relation "measure down_steps")
  show "wf (measure down_steps)" by simp
next
  fix d :: real
  assume less: "pi < d"
  have "(d - pi * 2 - pi) / (2 * pi) = (d - pi) / (2 * pi) - 1"
    by (simp add: field_simps)
  then have fl: "\<lfloor>(d - pi * 2 - pi) / (2 * pi)\<rfloor> = \<lfloor>(d - pi) / (2 * pi)\<rfloor> - 1"
    by (simp only: floor_diff_one)
  have nonneg: "0 \<le> \<lfloor>(d - pi) / (2 * pi)\<rfloor>"
    using less by simp
  have "down_steps (d - pi * 2) < down_steps d"
    unfolding down_steps_def fl using nonneg by linarith
  then show "(d - pi * 2, d) \<in> measure down_steps" by simp
qed

declare angle_diff_up.simps [simp del]
declare angle_diff_down.simps [simp del]

definition angle_diff :: "real \<Rightarrow> real \<Rightarrow> real" where
  "angle_diff a b = angle_diff_down (angle_diff_up (a - b))"

subsection \<open>Ray against segment\<close>

text \<open>
  \<open>ray_segment_intersection\<close> solves \<open>origin + t * direction = a + u * (b - a)\<close>.
  The division is reached only when \<open>1e-6 \<le> \<bar>denom\<bar>\<close>, so it never divides by zero.
\<close>

definition ray_segment_intersection :: "Vec2 \<Rightarrow> Vec2 \<Rightarrow> Vec2 \<Rightarrow> Vec2 \<Rightarrow> (real \<times> real) option" where
  "ray_segment_intersection origin direction a b =
     (let v1 = sub origin a;
          v2 = sub b a;
          denom = cross direction v2
      in if \<bar>denom\<bar> < 1 / 1000000 then None
         else (let t = cross v2 v1 / denom;
                   u = cross direction v1 / denom
               in if t < 0 then None else Some (t, u)))"

subsection \<open>cast_ray\<close>

text \<open>
  The loop of \<open>cast_ray\<close> over the walls. Its state is the triple
  \<open>(closest_t, closest_point, hit_wall)\<close>. The source keeps a reference to the wall
  object that was hit and compares walls by identity; the model names a wall by its
  position in the list.
\<close>

type_synonym ray_state = "real \<times> Vec2 option \<times> nat option"

definition cast_ray_step :: "Vec2 \<Rightarrow> Vec2 \<Rightarrow> nat \<Rightarrow> Wall \<Rightarrow> ray_state \<Rightarrow> ray_state" where
  "cast_ray_step origin direction i wall st =
     (case st of (closest_t, closest_point, hit_wall) \<Rightarrow>
        (let seg = segment wall in
         case ray_segment_intersection origin direction (seg_p1 seg) (seg_p2 seg) of
           None \<Rightarrow> st
         | Some (t, u) \<Rightarrow>
             if 0 \<le> t \<and> t < closest_t \<and> 0 \<le> u \<and> u \<le> 1
             then (t, Some (add origin (mul direction t)), Some i)
             else st))"

fun cast_ray_loop :: "Vec2 \<Rightarrow> Vec2 \<Rightarrow> nat \<Rightarrow> Wall list \<Rightarrow> ray_state \<Rightarrow> ray_state" where
  "cast_ray_loop origin direction i [] st = st"
| "cast_ray_loop origin direction i (wall # walls) st =
     cast_ray_loop origin direction (Suc i) walls (cast_ray_step origin direction i wall st)"

definition cast_ray_state :: "Wall list \<Rightarrow> Vec2 \<Rightarrow> real \<Rightarrow> real \<Rightarrow> ray_state" where
  "cast_ray_state walls origin ang max_dist =
     cast_ray_loop origin (from_angle ang) 0 walls (max_dist, None, None)"

definition cast_ray :: "Wall list \<Rightarrow> Vec2 \<Rightarrow> real \<Rightarrow> real \<Rightarrow> Vec2 option \<times> nat option" where
  "cast_ray walls origin ang max_dist = snd (cast_ray_state walls origin ang max_dist)"

text \<open>The admissible intersection parameter of one wall, as the test inside the loop
  reads it against a bound: \<open>0 \<le> t < bound\<close> and \<open>0 \<le> u \<le> 1\<close>.\<close>

definition wall_hit :: "Vec2 \<Rightarrow> Vec2 \<Rightarrow> real \<Rightarrow> Wall \<Rightarrow> real option" where
  "wall_hit origin direction bound wall =
     (case ray_segment_intersection origin direction
             (seg_p1 (segment wall)) (seg_p2 (segment wall)) of
        None \<Rightarrow> None
      | Some (t, u) \<Rightarrow>
          if 0 \<le> t \<and> t < bound \<and> 0 \<le> u \<and> u \<le> 1 then Some t else None)"

subsection \<open>compute_visibility_polygon\<close>

definition eps :: real where
  "eps = 1 / 1000"

definition max_dist_default :: real where
  "max_dist_default = 1000"

text \<open>Candidate angles of the wall end points: three per end point.\<close>

definition point_angles :: "Vec2 \<Rightarrow> Vec2 \<Rightarrow> real list" where
  "point_angles origin p =
     (let rel = sub p origin;
          ang = atan2 (vy rel) (vx rel)
      in [ang - eps, ang, ang + eps])"

fun wall_angles :: "Vec2 \<Rightarrow> Wall list \<Rightarrow> real list" where
  "wall_angles origin [] = []"
| "wall_angles origin (wall # walls) =
     point_angles origin (seg_p1 (segment wall)) @
     point_angles origin (seg_p2 (segment wall)) @ wall_angles origin walls"

definition sample_angles :: "real \<Rightarrow> real \<Rightarrow> bool \<Rightarrow> real list" where
  "sample_angles facing_angle fov_angle full_360 =
     (if full_360 then
        map (\<lambda>i. - pi + 2 * pi * real i / 64) [0..<64]
      else
        (let half = fov_angle / 2
         in map (\<lambda>i. facing_angle + (- half + fov_angle * real i / 32)) [0..<33]))"

definition candidate_angles :: "Wall list \<Rightarrow> Vec2 \<Rightarrow> real \<Rightarrow> real \<Rightarrow> bool \<Rightarrow> real list" where
  "candidate_angles walls origin facing_angle fov_angle full_360 =
     wall_angles origin walls @ sample_angles facing_angle fov_angle full_360"

text \<open>\<open>round(a, 4)\<close>: four decimals, a tie going to the even neighbour.\<close>

definition round_half_even :: "real \<Rightarrow> int" where
  "round_half_even s =
     (let f = \<lfloor>s\<rfloor>; r = s - of_int f
      in if r < 1 / 2 then f
         else if 1 / 2 < r then f + 1
         else if even f then f else f + 1)"

definition round4 :: "real \<Rightarrow> real" where
  "round4 a = of_int (round_half_even (a * 10000)) / 10000"

definition normalize_angle :: "real \<Rightarrow> real" where
  "normalize_angle a = atan2 (sin a) (cos a)"

text \<open>The loop that normalises, drops an angle whose rounded key was seen, and in
  FOV mode drops an angle outside the field of view (its key stays recorded).\<close>

fun unique_loop :: "real \<Rightarrow> real \<Rightarrow> bool \<Rightarrow> real list \<Rightarrow> real set \<Rightarrow> real list" where
  "unique_loop facing_angle fov_angle full_360 [] seen = []"
| "unique_loop facing_angle fov_angle full_360 (a0 # angles) seen =
     (let a = normalize_angle a0;
          key = round4 a
      in if key \<in> seen then unique_loop facing_angle fov_angle full_360 angles seen
         else if \<not> full_360 \<and> fov_angle / 2 < \<bar>angle_diff a facing_angle\<bar>
           then unique_loop facing_angle fov_angle full_360 angles (insert key seen)
         else a # unique_loop facing_angle fov_angle full_360 angles (insert key seen))"

definition unique_angles :: "Wall list \<Rightarrow> Vec2 \<Rightarrow> real \<Rightarrow> real \<Rightarrow> bool \<Rightarrow> real list" where
  "unique_angles walls origin facing_angle fov_angle full_360 =
     sort (unique_loop facing_angle fov_angle full_360
             (candidate_angles walls origin facing_angle fov_angle full_360) {})"

definition ordered_angles :: "Wall list \<Rightarrow> Vec2 \<Rightarrow> real \<Rightarrow> real \<Rightarrow> bool \<Rightarrow> real list" where
  "ordered_angles walls origin facing_angle fov_angle full_360 =
     (let us = unique_angles walls origin facing_angle fov_angle full_360
      in if full_360 then sort us
         else map snd (sort_key fst (map (\<lambda>a. (angle_diff a facing_angle, a)) us)))"

text \<open>
  The casting loop: a ray that hits appends \<open>(a, hit_point)\<close> to \<open>points\<close> and
  adds the wall to \<open>hit_walls\<close>; a ray that misses adds nothing. The source runs
  this loop a first time over \<open>unique_angles\<close> and then resets both results, so only
  the run over \<open>ordered_angles\<close> reaches the output.
\<close>

fun cast_all :: "Wall list \<Rightarrow> Vec2 \<Rightarrow> real list \<Rightarrow> (real \<times> Vec2) list \<times> nat set" where
  "cast_all walls origin [] = ([], {})"
| "cast_all walls origin (a # angles) =
     (case cast_all walls origin angles of (points, hit_walls) \<Rightarrow>
        (case cast_ray walls origin a max_dist_default of
           (None, hit_wall) \<Rightarrow> (points, hit_walls)
         | (Some hit_point, None) \<Rightarrow> ((a, hit_point) # points, hit_walls)
         | (Some hit_point, Some w) \<Rightarrow> ((a, hit_point) # points, insert w hit_walls)))"

definition visibility_points :: "Wall list \<Rightarrow> Vec2 \<Rightarrow> real \<Rightarrow> real \<Rightarrow> bool \<Rightarrow> (real \<times> Vec2) list" where
  "visibility_points walls origin facing_angle fov_angle full_360 =
     fst (cast_all walls origin (ordered_angles walls origin facing_angle fov_angle full_360))"

definition compute_visibility_polygon :: "Wall list \<Rightarrow> Vec2 \<Rightarrow> real \<Rightarrow> real \<Rightarrow> bool \<Rightarrow> Vec2 list \<times> nat set" where
  "compute_visibility_polygon walls origin facing_angle fov_angle full_360 =
     (case cast_all walls origin (ordered_angles walls origin facing_angle fov_angle full_360) of
        (points, hit_walls) \<Rightarrow> (map snd points, hit_walls))"

subsection \<open>compute_visibility_polygon with an infinite facing angle\<close>

text \<open>
  A Python float is a finite number, \<open>inf\<close> or \<open>-inf\<close> (NaN is left out). The facing
  angle is the one argument read as such a float here; the walls, the origin and the
  field of view stay finite. Comparison is the order of the floats.
\<close>

datatype pyfloat = Finite real | PosInf | NegInf

datatype py_error = ValueError

instantiation pyfloat :: linorder
begin

fun less_eq_pyfloat :: "pyfloat \<Rightarrow> pyfloat \<Rightarrow> bool" where
  "less_eq_pyfloat NegInf y = True"
| "less_eq_pyfloat (Finite x) (Finite y) = (x \<le> y)"
| "less_eq_pyfloat (Finite x) PosInf = True"
| "less_eq_pyfloat (Finite x) NegInf = False"
| "less_eq_pyfloat PosInf PosInf = True"
| "less_eq_pyfloat PosInf (Finite y) = False"
| "less_eq_pyfloat PosInf NegInf = False"

definition less_pyfloat :: "pyfloat \<Rightarrow> pyfloat \<Rightarrow> bool" where
  "less_pyfloat x y = (x \<le> y \<and> \<not> y \<le> x)"

instance
proof
  fix x y z :: pyfloat
  show "(x < y) = (x \<le> y \<and> \<not> y \<le> x)" by (rule less_pyfloat_def)
  show "x \<le> x" by (cases x) simp_all
  show "x \<le> y \<Longrightarrow> y \<le> z \<Longrightarrow> x \<le> z"
    by (cases x; cases y; cases z) simp_all
  show "x \<le> y \<Longrightarrow> y \<le> x \<Longrightarrow> x = y"
    by (cases x; cases y) simp_all
  show "x \<le> y \<or> y \<le> x"
    by (cases x; cases y) auto
qed

end

text \<open>Float arithmetic where one operand is finite: \<open>x + r\<close>, \<open>a - b\<close>, \<open>abs(x)\<close>.\<close>

fun float_add :: "pyfloat \<Rightarrow> real \<Rightarrow> pyfloat" where
  "float_add (Finite x) r = Finite (x + r)"
| "float_add PosInf r = PosInf"
| "float_add NegInf r = NegInf"

fun float_rsub :: "real \<Rightarrow> pyfloat \<Rightarrow> pyfloat" where
  "float_rsub a (Finite b) = Finite (a - b)"
| "float_rsub a PosInf = NegInf"
| "float_rsub a NegInf = PosInf"

fun float_abs :: "pyfloat \<Rightarrow> pyfloat" where
  "float_abs (Finite x) = Finite \<bar>x\<bar>"
| "float_abs PosInf = PosInf"
| "float_abs NegInf = PosInf"

text \<open>\<open>math.sin\<close> and \<open>math.cos\<close> raise \<open>ValueError\<close> (math domain error) at \<open>inf\<close>
  and \<open>-inf\<close>.\<close>

fun math_sin :: "pyfloat \<Rightarrow> py_error + real" where
  "math_sin (Finite x) = Inr (sin x)"
| "math_sin PosInf = Inl ValueError"
| "math_sin NegInf = Inl ValueError"

fun math_cos :: "pyfloat \<Rightarrow> py_error + real" where
  "math_cos (Finite x) = Inr (cos x)"
| "math_cos PosInf = Inl ValueError"
| "math_cos NegInf = Inl ValueError"

text \<open>
  The two loops of \<open>angle_diff\<close> on floats. Adding \<open>2\<pi>\<close> to \<open>-inf\<close> leaves \<open>-inf\<close>, so
  a loop may never end: each loop takes fuel, one unit per test of its condition, and
  \<open>None\<close> is the loop that has not ended when the fuel is used up.
\<close>

fun angle_diff_up_fuel :: "nat \<Rightarrow> pyfloat \<Rightarrow> pyfloat option" where
  "angle_diff_up_fuel 0 d = None"
| "angle_diff_up_fuel (Suc n) d =
     (if d \<le> Finite (- pi) then angle_diff_up_fuel n (float_add d (2 * pi)) else Some d)"

fun angle_diff_down_fuel :: "nat \<Rightarrow> pyfloat \<Rightarrow> pyfloat option" where
  "angle_diff_down_fuel 0 d = None"
| "angle_diff_down_fuel (Suc n) d =
     (if Finite pi < d then angle_diff_down_fuel n (float_add d (- (pi * 2))) else Some d)"

definition angle_diff_fuel :: "nat \<Rightarrow> real \<Rightarrow> pyfloat \<Rightarrow> pyfloat option" where
  "angle_diff_fuel n a b =
     (case angle_diff_up_fuel n (float_rsub a b) of
        None \<Rightarrow> None
      | Some d \<Rightarrow> angle_diff_down_fuel n d)"

text \<open>
  A run either uses up its fuel (\<open>None\<close>), raises (\<open>Some (Inl e)\<close>) or returns
  (\<open>Some (Inr v)\<close>). The steps are those of \<open>compute_visibility_polygon\<close> above, in
  the same order; an error or an unfinished loop ends the run where it happens.
\<close>

type_synonym 'a outcome = "(py_error + 'a) option"



definition keep_angle :: "real \<Rightarrow> real list outcome \<Rightarrow> real list outcome" where
  "keep_angle a rest = map_option (map_sum id ((#) a)) rest"

fun unique_loop_float :: "nat \<Rightarrow> pyfloat \<Rightarrow> real \<Rightarrow> bool \<Rightarrow> pyfloat list \<Rightarrow> real set \<Rightarrow> real list outcome" where
  "unique_loop_float n facing_angle fov_angle full_360 [] seen = Some (Inr [])"
| "unique_loop_float n facing_angle fov_angle full_360 (a0 # angles) seen =
     (case math_sin a0 of
        Inl e \<Rightarrow> Some (Inl e)
      | Inr s \<Rightarrow>
          (case math_cos a0 of
             Inl e \<Rightarrow> Some (Inl e)
           | Inr c \<Rightarrow>
               (let a = atan2 s c;
                    key = round4 a
                in if key \<in> seen
                   then unique_loop_float n facing_angle fov_angle full_360 angles seen
                   else if full_360
                   then keep_angle a
                          (unique_loop_float n facing_angle fov_angle full_360 angles (insert key seen))
                   else (case angle_diff_fuel n a facing_angle of
                           None \<Rightarrow> None
                         | Some diff \<Rightarrow>
                             if Finite (fov_angle / 2) < float_abs diff
                             then unique_loop_float n facing_angle fov_angle full_360 angles
                                    (insert key seen)
                             else keep_angle a
                                    (unique_loop_float n facing_angle fov_angle full_360 angles
                                       (insert key seen))))))"



text \<open>Fuel that is enough for every call of \<open>angle_diff\<close> on a normalised angle and a
  finite facing angle.\<close>

definition fuel_bound :: "real \<Rightarrow> nat" where
  "fuel_bound facing = nat \<lceil>\<bar>facing\<bar> / (2 * pi)\<rceil> + 2"

section \<open>Properties\<close>

subsection \<open>Facts about the two loops of angle_diff\<close>

lemma angle_diff_up_stop: "- pi < d \<Longrightarrow> angle_diff_up d = d"
  by (subst angle_diff_up.simps) simp

lemma angle_diff_up_step: "d \<le> - pi \<Longrightarrow> angle_diff_up d = angle_diff_up (d + 2 * pi)"
  by (subst angle_diff_up.simps) simp

lemma angle_diff_down_stop: "d \<le> pi \<Longrightarrow> angle_diff_down d = d"
  by (subst angle_diff_down.simps) simp

lemma angle_diff_down_step: "pi < d \<Longrightarrow> angle_diff_down d = angle_diff_down (d - pi * 2)"
  by (subst angle_diff_down.simps) simp

lemma angle_diff_up_result:
  "- pi < angle_diff_up d \<and> (\<exists>k::nat. angle_diff_up d = d + 2 * pi * real k) \<and> (d \<le> pi \<longrightarrow> angle_diff_up d \<le> pi)"
proof (induction d rule: angle_diff_up.induct)
  case (1 d)
  show ?case
  proof (cases "d \<le> - pi")
    case True
    from 1 [OF True] obtain k :: nat where
      lo: "- pi < angle_diff_up (d + 2 * pi)" and
      k: "angle_diff_up (d + 2 * pi) = d + 2 * pi + 2 * pi * real k" and
      hi: "d + 2 * pi \<le> pi \<longrightarrow> angle_diff_up (d + 2 * pi) \<le> pi"
      by blast
    have "angle_diff_up d = d + 2 * pi * real (Suc k)"
      using k by (simp add: angle_diff_up_step [OF True] algebra_simps)
    then have "\<exists>k::nat. angle_diff_up d = d + 2 * pi * real k" ..
    moreover have "d + 2 * pi \<le> pi" using True by simp
    ultimately show ?thesis
      using lo hi by (simp add: angle_diff_up_step [OF True])
  next
    case False
    then have eq: "angle_diff_up d = d" by (simp add: angle_diff_up_stop)
    have "angle_diff_up d = d + 2 * pi * real (0::nat)" using eq by simp
    then have "\<exists>k::nat. angle_diff_up d = d + 2 * pi * real k" ..
    then show ?thesis using False eq by simp
  qed
qed

lemma angle_diff_down_result:
  "angle_diff_down d \<le> pi \<and> (\<exists>k::nat. angle_diff_down d = d - 2 * pi * real k) \<and> (- pi < d \<longrightarrow> - pi < angle_diff_down d)"
proof (induction d rule: angle_diff_down.induct)
  case (1 d)
  show ?case
  proof (cases "pi < d")
    case True
    from 1 [OF True] obtain k :: nat where
      hi: "angle_diff_down (d - pi * 2) \<le> pi" and
      k: "angle_diff_down (d - pi * 2) = d - pi * 2 - 2 * pi * real k" and
      lo: "- pi < d - pi * 2 \<longrightarrow> - pi < angle_diff_down (d - pi * 2)"
      by blast
    have "angle_diff_down d = d - 2 * pi * real (Suc k)"
      using k by (simp add: angle_diff_down_step [OF True] algebra_simps)
    then have "\<exists>k::nat. angle_diff_down d = d - 2 * pi * real k" ..
    moreover have "- pi < d - pi * 2" using True by simp
    ultimately show ?thesis
      using lo hi by (simp add: angle_diff_down_step [OF True])
  next
    case False
    then have eq: "angle_diff_down d = d" by (simp add: angle_diff_down_stop)
    have "angle_diff_down d = d - 2 * pi * real (0::nat)" using eq by simp
    then have "\<exists>k::nat. angle_diff_down d = d - 2 * pi * real k" ..
    then show ?thesis using False eq by simp
  qed
qed

lemma angle_diff_range: "- pi < angle_diff a b \<and> angle_diff a b \<le> pi"
  unfolding angle_diff_def
  using angle_diff_down_result [of "angle_diff_up (a - b)"] angle_diff_up_result [of "a - b"]
  by blast

lemma angle_diff_congruent: "\<exists>k::int. angle_diff a b = a - b + 2 * pi * of_int k"
proof -
  obtain m :: nat where m: "angle_diff_up (a - b) = a - b + 2 * pi * real m"
    using angle_diff_up_result [of "a - b"] by blast
  obtain n :: nat where n: "angle_diff_down (angle_diff_up (a - b)) = angle_diff_up (a - b) - 2 * pi * real n"
    using angle_diff_down_result [of "angle_diff_up (a - b)"] by blast
  have "angle_diff a b = a - b + 2 * pi * of_int (int m - int n)"
    using m n by (simp add: angle_diff_def algebra_simps)
  then show ?thesis ..
qed

lemma angle_diff_in_range: "- pi < a - b \<Longrightarrow> a - b \<le> pi \<Longrightarrow> angle_diff a b = a - b"
  by (simp add: angle_diff_def angle_diff_up_stop angle_diff_down_stop)

lemma angle_diff_wrap_value: "angle_diff (pi - 1/100) (- pi + 1/100) = - (1/50)"
proof -
  have pos: "2 \<le> pi" by (rule pi_ge_two)
  have up: "angle_diff_up (pi - 1/100 - (- pi + 1/100)) = pi - 1/100 - (- pi + 1/100)"
    by (rule angle_diff_up_stop) (use pos in simp)
  have "angle_diff_down (pi - 1/100 - (- pi + 1/100)) = angle_diff_down (pi - 1/100 - (- pi + 1/100) - pi * 2)"
    by (rule angle_diff_down_step) (use pos in simp)
  also have "\<dots> = pi - 1/100 - (- pi + 1/100) - pi * 2"
    by (rule angle_diff_down_stop) (use pos in simp)
  finally show ?thesis
    unfolding angle_diff_def up by simp
qed

lemma angle_diff_minimal: "\<bar>angle_diff a b\<bar> \<le> \<bar>a - b + 2 * pi * of_int k\<bar>"
proof -
  obtain k0 :: int where k0: "angle_diff a b = a - b + 2 * pi * of_int k0"
    using angle_diff_congruent by blast
  have rng: "- pi < angle_diff a b" "angle_diff a b \<le> pi"
    using angle_diff_range by blast+
  define j where "j = k - k0"
  have other: "a - b + 2 * pi * of_int k = angle_diff a b + 2 * pi * of_int j"
    unfolding j_def k0 by (simp add: algebra_simps)
  show ?thesis
  proof (cases "j = 0")
    case True
    then show ?thesis unfolding other by simp
  next
    case False
    then consider "1 \<le> j" | "j \<le> - 1" by linarith
    then show ?thesis
    proof cases
      case 1
      then have "(1::real) \<le> of_int j" by simp
      then have "2 * pi * 1 \<le> 2 * pi * of_int j"
        by (intro mult_left_mono) simp_all
      then show ?thesis unfolding other using rng by linarith
    next
      case 2
      then have "of_int j \<le> (- 1::real)" by (metis of_int_le_iff of_int_minus of_int_1)
      then have "2 * pi * of_int j \<le> 2 * pi * (- 1)"
        by (intro mult_left_mono) simp_all
      then show ?thesis unfolding other using rng by linarith
    qed
  qed
qed

subsection \<open>The intersection primitive\<close>

text \<open>
  C1. The ray from \<open>(0,0)\<close> at angle \<open>0\<close> meets the segment \<open>(5,-1)-(5,1)\<close> at
  \<open>t = 5\<close>, \<open>u = 1/2\<close>; against \<open>(-5,-1)-(-5,1)\<close>, which lies behind the origin,
  there is no intersection; and whenever the cross product of the direction with
  \<open>b - a\<close> is below \<open>1e-6\<close> in absolute value there is no intersection.
\<close>

theorem ray_segment_intersection_unit:
  "ray_segment_intersection (Vec2 0 0) (from_angle 0) (Vec2 5 (- 1)) (Vec2 5 1) = Some (5, 1 / 2) \<and>
   ray_segment_intersection (Vec2 0 0) (from_angle 0) (Vec2 (- 5) (- 1)) (Vec2 (- 5) 1) = None \<and>
   (\<forall>origin direction a b.
      \<bar>cross direction (sub b a)\<bar> < 1 / 1000000 \<longrightarrow>
      ray_segment_intersection origin direction a b = None)"
  by (simp add: ray_segment_intersection_def from_angle_def sub_def cross_def Let_def)

theorem ray_segment_intersection_unit_witness:
  "\<bar>cross (from_angle 0) (sub (Vec2 7 0) (Vec2 5 0))\<bar> < 1 / 1000000 \<and>
   ray_segment_intersection (Vec2 0 0) (from_angle 0) (Vec2 5 0) (Vec2 7 0) = None"
proof -
  have h: "\<bar>cross (from_angle 0) (sub (Vec2 7 0) (Vec2 5 0))\<bar> < 1 / 1000000"
    by (simp add: from_angle_def sub_def cross_def)
  from ray_segment_intersection_unit
  have "\<bar>cross (from_angle 0) (sub (Vec2 7 0) (Vec2 5 0))\<bar> < 1 / 1000000 \<longrightarrow>
        ray_segment_intersection (Vec2 0 0) (from_angle 0) (Vec2 5 0) (Vec2 7 0) = None"
    by blast
  with h show ?thesis by blast
qed


subsection \<open>The signed angle difference\<close>

text \<open>
  The value of \<open>angle_diff\<close> at \<open>a = \<pi> - 0.01\<close>, \<open>b = -\<pi> + 0.01\<close> is \<open>-0.02\<close>:
  the difference \<open>2\<pi> - 0.02\<close> exceeds \<open>\<pi>\<close>, so the second loop subtracts \<open>2\<pi>\<close>
  once. It is therefore not within \<open>0.01\<close> of \<open>0.02\<close>.
\<close>

theorem angle_diff_wrap_counterexample:
  "angle_diff (pi - 1 / 100) (- pi + 1 / 100) = - (1 / 50) \<and>
   \<not> \<bar>angle_diff (pi - 1 / 100) (- pi + 1 / 100) - 1 / 50\<bar> \<le> 1 / 100"
  using angle_diff_wrap_value by simp

text \<open>
  C7, amended. \<open>angle_diff a b\<close> lies in \<open>(-\<pi>, \<pi>]\<close>, differs from \<open>a - b\<close> by a
  whole multiple of \<open>2\<pi>\<close>, and is the shortest such displacement; at
  \<open>a = \<pi> - 0.01\<close>, \<open>b = -\<pi> + 0.01\<close> it is \<open>-0.02\<close>.
\<close>

theorem angle_diff_shortest:
  "- pi < angle_diff a b \<and> angle_diff a b \<le> pi \<and>
   (\<exists>k::int. angle_diff a b = a - b + 2 * pi * of_int k) \<and>
   (\<forall>k::int. \<bar>angle_diff a b\<bar> \<le> \<bar>a - b + 2 * pi * of_int k\<bar>) \<and>
   angle_diff (pi - 1 / 100) (- pi + 1 / 100) = - (1 / 50)"
  using angle_diff_range [of a b] angle_diff_congruent [of a b] angle_diff_minimal [of a b]
    angle_diff_wrap_value
  by simp

subsection \<open>Wall kinematics\<close>

lemma add_zero_vec: "add p (mul (Vec2 0 0) dt) = p"
  by (cases p) (simp add: add_def mul_def)

lemma update_rotation_active:
  "rotation_center w = Some c \<Longrightarrow> angular_speed w \<noteq> 0 \<Longrightarrow>
   update_rotation dt w =
     w\<lparr>angle := angle w + angular_speed w * dt,
       segment := Segment (rotate_around (base_p1 w) c (angle w + angular_speed w * dt))
                          (rotate_around (base_p2 w) c (angle w + angular_speed w * dt))\<rparr>"
  by (simp add: update_rotation_def Let_def)

lemma update_rotation_inactive:
  "rotation_center w = None \<or> angular_speed w = 0 \<Longrightarrow> update_rotation dt w = w"
  by (auto simp: update_rotation_def split: option.splits)

lemma rotate_around_coords:
  "rotate_around p c th =
     Vec2 (vx c + ((vx p - vx c) * cos th - (vy p - vy c) * sin th))
          (vy c + ((vx p - vx c) * sin th + (vy p - vy c) * cos th))"
  by (simp add: rotate_around_def Let_def add_def sub_def)

text \<open>
  C5. \<open>update dt\<close> leaves a wall that is not dynamic unchanged. On a dynamic wall it
  is the rotation step followed by the translation step. The rotation step, when a
  rotation centre is present and the angular speed is not zero, adds
  \<open>angular_speed * dt\<close> to \<open>angle\<close> and overwrites both end points of the segment
  with the base points rotated about the centre by the new angle, and otherwise
  changes nothing. The translation step, when the velocity is not zero, adds
  \<open>velocity * dt\<close> to both end points of the segment it receives, and otherwise
  changes nothing. Rotation is translate to the origin, rotation matrix, translate back.
\<close>

theorem update_contract:
  "(\<not> dynamic w \<longrightarrow> update dt w = w) \<and>
   (dynamic w \<longrightarrow>
      update dt w = update_translation dt (update_rotation dt w) \<and>
      (\<forall>c. rotation_center w = Some c \<and> angular_speed w \<noteq> 0 \<longrightarrow>
         update_rotation dt w =
           w\<lparr>angle := angle w + angular_speed w * dt,
             segment := Segment (rotate_around (base_p1 w) c (angle w + angular_speed w * dt))
                                (rotate_around (base_p2 w) c (angle w + angular_speed w * dt))\<rparr>) \<and>
      (rotation_center w = None \<or> angular_speed w = 0 \<longrightarrow> update_rotation dt w = w) \<and>
      (\<forall>w1. vx (velocity w1) \<noteq> 0 \<or> vy (velocity w1) \<noteq> 0 \<longrightarrow>
         update_translation dt w1 =
           w1\<lparr>segment := Segment (add (seg_p1 (segment w1)) (mul (velocity w1) dt))
                                 (add (seg_p2 (segment w1)) (mul (velocity w1) dt))\<rparr>) \<and>
      (\<forall>w1. vx (velocity w1) = 0 \<and> vy (velocity w1) = 0 \<longrightarrow> update_translation dt w1 = w1)) \<and>
   (\<forall>p c th. rotate_around p c th =
      Vec2 (vx c + ((vx p - vx c) * cos th - (vy p - vy c) * sin th))
           (vy c + ((vx p - vx c) * sin th + (vy p - vy c) * cos th)))"
  using update_rotation_active [of w _ dt] update_rotation_inactive [of w dt]
  by (simp add: update_def update_translation_def Let_def rotate_around_coords)

theorem update_contract_witness:
  "update 1 (new_wall (Vec2 1 0) (Vec2 2 0) False (Some (Vec2 0 0)) pi (Some (Vec2 3 0))) =
     new_wall (Vec2 1 0) (Vec2 2 0) False (Some (Vec2 0 0)) pi (Some (Vec2 3 0)) \<and>
   update 1 (new_wall (Vec2 1 0) (Vec2 2 0) True (Some (Vec2 0 0)) pi (Some (Vec2 3 0))) =
     (new_wall (Vec2 1 0) (Vec2 2 0) True (Some (Vec2 0 0)) pi (Some (Vec2 3 0)))
       \<lparr>angle := pi, segment := Segment (Vec2 2 0) (Vec2 1 0)\<rparr>"
proof -
  let ?s = "new_wall (Vec2 1 0) (Vec2 2 0) False (Some (Vec2 0 0)) pi (Some (Vec2 3 0))"
  let ?d = "new_wall (Vec2 1 0) (Vec2 2 0) True (Some (Vec2 0 0)) pi (Some (Vec2 3 0))"
  let ?r = "?d\<lparr>angle := pi, segment := Segment (Vec2 (- 1) 0) (Vec2 (- 2) 0)\<rparr>"
  have static: "update 1 ?s = ?s"
    using update_contract [of ?s 1] by (simp add: new_wall_def)
  have c: "update 1 ?d = update_translation 1 (update_rotation 1 ?d)"
    and rot: "update_rotation 1 ?d = ?r"
    using update_contract [of ?d 1] by (simp_all add: new_wall_def)
  have "vx (velocity ?r) \<noteq> 0 \<or> vy (velocity ?r) \<noteq> 0"
    by (simp add: new_wall_def)
  then have "update_translation 1 ?r =
      ?r\<lparr>segment := Segment (add (seg_p1 (segment ?r)) (mul (velocity ?r) 1))
                             (add (seg_p2 (segment ?r)) (mul (velocity ?r) 1))\<rparr>"
    using update_contract [of ?d 1] by (simp add: new_wall_def)
  then have "update 1 ?d = ?d\<lparr>angle := pi, segment := Segment (Vec2 2 0) (Vec2 1 0)\<rparr>"
    unfolding c rot by (simp add: new_wall_def add_def mul_def)
  with static show ?thesis by simp
qed

lemma update_rotating_segment:
  assumes "dynamic w" "rotation_center w = Some c" "angular_speed w \<noteq> 0"
  shows "angle (update dt w) = angle w + angular_speed w * dt"
    and "segment (update dt w) =
       Segment (add (rotate_around (base_p1 w) c (angle w + angular_speed w * dt)) (mul (velocity w) dt))
               (add (rotate_around (base_p2 w) c (angle w + angular_speed w * dt)) (mul (velocity w) dt))"
proof -
  show "angle (update dt w) = angle w + angular_speed w * dt"
    using assms by (simp add: update_def update_rotation_active update_translation_def Let_def)
  show "segment (update dt w) =
       Segment (add (rotate_around (base_p1 w) c (angle w + angular_speed w * dt)) (mul (velocity w) dt))
               (add (rotate_around (base_p2 w) c (angle w + angular_speed w * dt)) (mul (velocity w) dt))"
  proof (cases "vx (velocity w) \<noteq> 0 \<or> vy (velocity w) \<noteq> 0")
    case True
    then show ?thesis
      using assms by (simp add: update_def update_rotation_active update_translation_def Let_def)
  next
    case False
    then have v: "velocity w = Vec2 0 0" by (cases "velocity w") simp
    show ?thesis
      using assms by (simp add: update_def update_rotation_active update_translation_def v add_zero_vec)
  qed
qed

text \<open>
  C6. For a wall whose rotation step runs (a dynamic wall with a rotation centre and a
  nonzero angular speed), after \<open>update dt\<close> the end points of the segment are the base
  points rotated about the centre by the new angle, plus \<open>velocity * dt\<close>. The segment
  the wall held before the call has no influence on the result, so translation
  accumulated in earlier frames is lost in every frame in which the rotation runs.
\<close>

theorem update_rotation_discards_translation:
  "dynamic w \<Longrightarrow> rotation_center w = Some c \<Longrightarrow> angular_speed w \<noteq> 0 \<Longrightarrow>
   angle (update dt w) = angle w + angular_speed w * dt \<and>
   seg_p1 (segment (update dt w)) =
     add (rotate_around (base_p1 w) c (angle (update dt w))) (mul (velocity w) dt) \<and>
   seg_p2 (segment (update dt w)) =
     add (rotate_around (base_p2 w) c (angle (update dt w))) (mul (velocity w) dt) \<and>
   segment (update dt (w\<lparr>segment := s\<rparr>)) = segment (update dt w)"
  using update_rotating_segment [of w c dt] update_rotating_segment [of "w\<lparr>segment := s\<rparr>" c dt]
  by simp

theorem update_rotation_discards_translation_witness:
  "seg_p1 (segment (update 1
      (new_wall (Vec2 1 0) (Vec2 2 0) True (Some (Vec2 0 0)) pi (Some (Vec2 3 0))
         \<lparr>segment := Segment (Vec2 40 0) (Vec2 41 0)\<rparr>))) = Vec2 2 0"
proof -
  let ?w = "new_wall (Vec2 1 0) (Vec2 2 0) True (Some (Vec2 0 0)) pi (Some (Vec2 3 0))"
  have d: "dynamic ?w" and r: "rotation_center ?w = Some (Vec2 0 0)" and s: "angular_speed ?w \<noteq> 0"
    by (simp_all add: new_wall_def)
  from update_rotation_discards_translation [OF d r s, of 1 "Segment (Vec2 40 0) (Vec2 41 0)"]
  show ?thesis
    by (simp add: new_wall_def rotate_around_coords add_def mul_def)
qed

text \<open>
  C8. A dynamic wall with rotation centre \<open>(0,0)\<close>, angular speed \<open>\<pi>\<close>, zero velocity
  and angle \<open>0\<close>: after \<open>update 2\<close> the end points of the segment are the base end
  points again (a full turn of \<open>2\<pi>\<close>).
\<close>

theorem rotation_round_trip:
  "dynamic w \<Longrightarrow> rotation_center w = Some (Vec2 0 0) \<Longrightarrow> angular_speed w = pi \<Longrightarrow>
   velocity w = Vec2 0 0 \<Longrightarrow> angle w = 0 \<Longrightarrow>
   segment (update 2 w) = Segment (base_p1 w) (base_p2 w) \<and> angle (update 2 w) = 2 * pi"
proof -
  assume a: "dynamic w" "rotation_center w = Some (Vec2 0 0)" "angular_speed w = pi"
    "velocity w = Vec2 0 0" "angle w = 0"
  have nz: "angular_speed w \<noteq> 0" using a(3) by simp
  have c: "cos (pi * 2) = 1" "sin (pi * 2) = 0"
    by (simp_all add: mult.commute)
  have rot: "rotate_around p (Vec2 0 0) (pi * 2) = p" for p
    by (cases p) (simp add: rotate_around_coords c)
  show ?thesis
    using update_rotating_segment [OF a(1) a(2) nz, of 2] a(3-5)
    by (simp add: rot add_zero_vec)
qed

theorem rotation_round_trip_witness:
  "segment (update 2 (new_wall (Vec2 1 2) (Vec2 3 4) True (Some (Vec2 0 0)) pi None))
     = Segment (Vec2 1 2) (Vec2 3 4)"
proof -
  let ?w = "new_wall (Vec2 1 2) (Vec2 3 4) True (Some (Vec2 0 0)) pi None"
  have "dynamic ?w" "rotation_center ?w = Some (Vec2 0 0)" "angular_speed ?w = pi"
    "velocity ?w = Vec2 0 0" "angle ?w = 0"
    by (simp_all add: new_wall_def)
  from rotation_round_trip [OF this] show ?thesis
    by (simp add: new_wall_def)
qed

subsection \<open>The 360 degree mode\<close>

lemma unique_loop_full:
  "unique_loop f1 v1 True angles seen = unique_loop f2 v2 True angles seen"
  by (induction angles arbitrary: seen) (simp_all add: Let_def)

text \<open>
  C10. With \<open>full_360\<close> set, \<open>compute_visibility_polygon\<close> returns the same points
  and the same hit set whatever facing angle and field of view are passed.
\<close>

theorem full_360_ignores_facing_and_fov:
  "compute_visibility_polygon walls origin facing1 fov1 True =
   compute_visibility_polygon walls origin facing2 fov2 True"
  by (simp add: compute_visibility_polygon_def ordered_angles_def unique_angles_def
      candidate_angles_def sample_angles_def unique_loop_full [of facing1 fov1 _ _ facing2 fov2])

subsection \<open>The closest hit of a ray\<close>

lemma cast_ray_step_wall_hit:
  "cast_ray_step origin direction i wall (ct, cp, hw) =
     (case wall_hit origin direction ct wall of
        None \<Rightarrow> (ct, cp, hw)
      | Some t \<Rightarrow> (t, Some (add origin (mul direction t)), Some i))"
  by (simp add: cast_ray_step_def wall_hit_def Let_def split: option.splits)

lemma wall_hit_iff:
  "wall_hit origin direction bound wall = Some t \<longleftrightarrow>
     (\<exists>u. ray_segment_intersection origin direction
             (seg_p1 (segment wall)) (seg_p2 (segment wall)) = Some (t, u) \<and>
          0 \<le> t \<and> t < bound \<and> 0 \<le> u \<and> u \<le> 1)"
  by (auto simp: wall_hit_def split: option.splits if_splits)

lemma wall_hit_tighten:
  "wall_hit origin direction b' wall = Some t \<longleftrightarrow>
     wall_hit origin direction b wall = Some t \<and> t < b'" if "b' \<le> b"
  using that by (auto simp: wall_hit_iff)

lemma cast_ray_loop_miss:
  "\<forall>w\<in>set ws. wall_hit origin direction ct w = None \<Longrightarrow>
   cast_ray_loop origin direction i ws (ct, cp, hw) = (ct, cp, hw)"
  by (induction ws arbitrary: i) (simp_all add: cast_ray_step_wall_hit)

lemma cast_ray_loop_hit:
  "\<exists>w\<in>set ws. wall_hit origin direction ct w \<noteq> None \<Longrightarrow>
   \<exists>k t. k < length ws \<and> wall_hit origin direction ct (ws ! k) = Some t \<and>
     cast_ray_loop origin direction i ws (ct, cp, hw) =
       (t, Some (add origin (mul direction t)), Some (i + k)) \<and>
     (\<forall>j<length ws. \<forall>t'. wall_hit origin direction ct (ws ! j) = Some t' \<longrightarrow> t \<le> t') \<and>
     (\<forall>j<k. wall_hit origin direction ct (ws ! j) \<noteq> Some t)"
proof (induction ws arbitrary: i ct cp hw)
  case Nil
  then show ?case by simp
next
  case (Cons w ws)
  let ?H = "\<lambda>b x. wall_hit origin direction b x"
  show ?case
  proof (cases "?H ct w")
    case None
    then have "\<exists>x\<in>set ws. ?H ct x \<noteq> None" using Cons.prems by auto
    from Cons.IH [OF this, of "Suc i" cp hw] obtain k t where
      k: "k < length ws" and h: "?H ct (ws ! k) = Some t" and
      r: "cast_ray_loop origin direction (Suc i) ws (ct, cp, hw) =
            (t, Some (add origin (mul direction t)), Some (Suc i + k))" and
      m: "\<forall>j<length ws. \<forall>t'. ?H ct (ws ! j) = Some t' \<longrightarrow> t \<le> t'" and
      f: "\<forall>j<k. ?H ct (ws ! j) \<noteq> Some t"
      by blast
    have m': "\<forall>j<length (w # ws). \<forall>t'. ?H ct ((w # ws) ! j) = Some t' \<longrightarrow> t \<le> t'"
      using m None by (auto simp: nth_Cons split: nat.splits)
    have f': "\<forall>j<Suc k. ?H ct ((w # ws) ! j) \<noteq> Some t"
      using f None by (auto simp: nth_Cons split: nat.splits)
    have "Suc k < length (w # ws) \<and> ?H ct ((w # ws) ! Suc k) = Some t \<and>
      cast_ray_loop origin direction i (w # ws) (ct, cp, hw) =
        (t, Some (add origin (mul direction t)), Some (i + Suc k))"
      using k h r None by (simp add: cast_ray_step_wall_hit)
    with m' f' show ?thesis by blast
  next
    case (Some t0)
    then have t0: "t0 < ct" by (auto simp: wall_hit_iff)
    have tight: "?H t0 x = Some t \<longleftrightarrow> ?H ct x = Some t \<and> t < t0" for x t
      using wall_hit_tighten [of t0 ct] t0 by simp
    have step: "cast_ray_loop origin direction i (w # ws) (ct, cp, hw) =
        cast_ray_loop origin direction (Suc i) ws (t0, Some (add origin (mul direction t0)), Some i)"
      using Some by (simp add: cast_ray_step_wall_hit)
    show ?thesis
    proof (cases "\<forall>x\<in>set ws. ?H t0 x = None")
      case True
      have r: "cast_ray_loop origin direction i (w # ws) (ct, cp, hw) =
          (t0, Some (add origin (mul direction t0)), Some (i + 0))"
        unfolding step using cast_ray_loop_miss [OF True] by simp
      have "t0 \<le> t'" if "j < length (w # ws)" "?H ct ((w # ws) ! j) = Some t'" for j t'
      proof (cases j)
        case 0
        then show ?thesis using that Some by simp
      next
        case (Suc n)
        then have n: "n < length ws" and hn: "?H ct (ws ! n) = Some t'" using that by simp_all
        have "?H t0 (ws ! n) = None" using True n by simp
        then have "\<not> t' < t0" using tight [of "ws ! n" t'] hn by simp
        then show ?thesis by simp
      qed
      then have m: "\<forall>j<length (w # ws). \<forall>t'. ?H ct ((w # ws) ! j) = Some t' \<longrightarrow> t0 \<le> t'"
        by blast
      have "0 < length (w # ws) \<and> ?H ct ((w # ws) ! 0) = Some t0" using Some by simp
      with r m show ?thesis by blast
    next
      case False
      then have "\<exists>x\<in>set ws. ?H t0 x \<noteq> None" by blast
      from Cons.IH [OF this, of "Suc i" "Some (add origin (mul direction t0))" "Some i"]
      obtain k t where
        k: "k < length ws" and h: "?H t0 (ws ! k) = Some t" and
        r: "cast_ray_loop origin direction (Suc i) ws
              (t0, Some (add origin (mul direction t0)), Some i) =
              (t, Some (add origin (mul direction t)), Some (Suc i + k))" and
        m: "\<forall>j<length ws. \<forall>t'. ?H t0 (ws ! j) = Some t' \<longrightarrow> t \<le> t'" and
        f: "\<forall>j<k. ?H t0 (ws ! j) \<noteq> Some t"
        by blast
      have hk: "?H ct (ws ! k) = Some t" and lt: "t < t0"
        using h tight by blast+
      have "t \<le> t'" if "j < length (w # ws)" "?H ct ((w # ws) ! j) = Some t'" for j t'
      proof (cases j)
        case 0
        then show ?thesis using that Some lt by simp
      next
        case (Suc n)
        then have n: "n < length ws" and hn: "?H ct (ws ! n) = Some t'" using that by simp_all
        show ?thesis
        proof (cases "t' < t0")
          case True
          then have "?H t0 (ws ! n) = Some t'" using tight hn by blast
          then show ?thesis using m n by blast
        next
          case False
          then show ?thesis using lt by simp
        qed
      qed
      then have m': "\<forall>j<length (w # ws). \<forall>t'. ?H ct ((w # ws) ! j) = Some t' \<longrightarrow> t \<le> t'"
        by blast
      have "?H ct ((w # ws) ! j) \<noteq> Some t" if "j < Suc k" for j
      proof (cases j)
        case 0
        then show ?thesis using Some lt by simp
      next
        case (Suc n)
        then have "n < k" using that by simp
        then have "?H t0 (ws ! n) \<noteq> Some t" using f by blast
        then show ?thesis using tight lt Suc by simp
      qed
      then have f': "\<forall>j<Suc k. ?H ct ((w # ws) ! j) \<noteq> Some t" by blast
      have "Suc k < length (w # ws) \<and> ?H ct ((w # ws) ! Suc k) = Some t \<and>
        cast_ray_loop origin direction i (w # ws) (ct, cp, hw) =
          (t, Some (add origin (mul direction t)), Some (i + Suc k))"
        using k hk r step by simp
      with m' f' show ?thesis by blast
    qed
  qed
qed

text \<open>
  C2. \<open>wall_hit\<close> is the admissible intersection parameter of a wall: the \<open>t\<close> of
  \<open>ray_segment_intersection\<close> against its current segment when \<open>0 \<le> t < max_dist\<close> and
  \<open>0 \<le> u \<le> 1\<close>. If no wall has one, \<open>cast_ray\<close> returns no hit. Otherwise it returns
  the point \<open>origin + direction * t\<close> and the wall struck, where \<open>t\<close> is that wall's
  admissible parameter, \<open>t < max_dist\<close>, no wall has a smaller admissible parameter,
  and the wall returned is the first in the list that attains \<open>t\<close>. The default
  \<open>max_dist\<close> is \<open>1000\<close>.
\<close>

theorem cast_ray_closest:
  "(if \<forall>w\<in>set walls. wall_hit origin (from_angle ang) max_dist w = None
    then cast_ray walls origin ang max_dist = (None, None)
    else \<exists>k t. k < length walls \<and>
           cast_ray walls origin ang max_dist =
             (Some (add origin (mul (from_angle ang) t)), Some k) \<and>
           wall_hit origin (from_angle ang) max_dist (walls ! k) = Some t \<and>
           0 \<le> t \<and> t < max_dist \<and>
           (\<forall>j<length walls. \<forall>t'.
              wall_hit origin (from_angle ang) max_dist (walls ! j) = Some t' \<longrightarrow> t \<le> t') \<and>
           (\<forall>j<k. wall_hit origin (from_angle ang) max_dist (walls ! j) \<noteq> Some t)) \<and>
   (\<forall>wall t. wall_hit origin (from_angle ang) max_dist wall = Some t \<longleftrightarrow>
      (\<exists>u. ray_segment_intersection origin (from_angle ang)
              (seg_p1 (segment wall)) (seg_p2 (segment wall)) = Some (t, u) \<and>
           0 \<le> t \<and> t < max_dist \<and> 0 \<le> u \<and> u \<le> 1)) \<and>
   max_dist_default = 1000"
proof -
  let ?d = "from_angle ang"
  have A: "cast_ray walls origin ang max_dist = (None, None)"
    if "\<forall>w\<in>set walls. wall_hit origin ?d max_dist w = None"
    using cast_ray_loop_miss [OF that, of 0 None None]
    by (simp add: cast_ray_def cast_ray_state_def)
  have B: "\<exists>k t. k < length walls \<and>
           cast_ray walls origin ang max_dist = (Some (add origin (mul ?d t)), Some k) \<and>
           wall_hit origin ?d max_dist (walls ! k) = Some t \<and>
           0 \<le> t \<and> t < max_dist \<and>
           (\<forall>j<length walls. \<forall>t'. wall_hit origin ?d max_dist (walls ! j) = Some t' \<longrightarrow> t \<le> t') \<and>
           (\<forall>j<k. wall_hit origin ?d max_dist (walls ! j) \<noteq> Some t)"
    if "\<not> (\<forall>w\<in>set walls. wall_hit origin ?d max_dist w = None)"
  proof -
    from that have "\<exists>w\<in>set walls. wall_hit origin ?d max_dist w \<noteq> None" by blast
    from cast_ray_loop_hit [OF this, of 0 None None] obtain k t where
      k: "k < length walls" and h: "wall_hit origin ?d max_dist (walls ! k) = Some t" and
      r: "cast_ray_loop origin ?d 0 walls (max_dist, None, None) =
            (t, Some (add origin (mul ?d t)), Some (0 + k))" and
      m: "\<forall>j<length walls. \<forall>t'. wall_hit origin ?d max_dist (walls ! j) = Some t' \<longrightarrow> t \<le> t'" and
      f: "\<forall>j<k. wall_hit origin ?d max_dist (walls ! j) \<noteq> Some t"
      by blast
    have b: "0 \<le> t \<and> t < max_dist" using h by (auto simp: wall_hit_iff)
    have "cast_ray walls origin ang max_dist = (Some (add origin (mul ?d t)), Some k)"
      using r by (simp add: cast_ray_def cast_ray_state_def)
    with k h b m f show ?thesis by blast
  qed
  show ?thesis
    using A B by (simp add: wall_hit_iff max_dist_default_def)
qed

theorem cast_ray_closest_witness:
  "cast_ray [new_wall (Vec2 5 (- 1)) (Vec2 5 1) False None 0 None] (Vec2 0 0) 0 1000 =
     (Some (Vec2 5 0), Some 0) \<and>
   cast_ray [new_wall (Vec2 (- 5) (- 1)) (Vec2 (- 5) 1) False None 0 None] (Vec2 0 0) 0 1000 =
     (None, None)"
proof -
  let ?w = "new_wall (Vec2 5 (- 1)) (Vec2 5 1) False None 0 None"
  let ?b = "new_wall (Vec2 (- 5) (- 1)) (Vec2 (- 5) 1) False None 0 None"
  have hit: "wall_hit (Vec2 0 0) (from_angle 0) 1000 ?w = Some 5"
    by (simp add: wall_hit_def new_wall_def ray_segment_intersection_def from_angle_def
        sub_def cross_def Let_def)
  have miss: "wall_hit (Vec2 0 0) (from_angle 0) 1000 ?b = None"
    by (simp add: wall_hit_def new_wall_def ray_segment_intersection_def from_angle_def
        sub_def cross_def Let_def)
  have "\<not> (\<forall>w\<in>set [?w]. wall_hit (Vec2 0 0) (from_angle 0) 1000 w = None)"
    using hit by simp
  with conjunct1 [OF cast_ray_closest [of "[?w]" "Vec2 0 0" 0 1000]]
  have "\<exists>k t. k < length [?w] \<and>
      cast_ray [?w] (Vec2 0 0) 0 1000 = (Some (add (Vec2 0 0) (mul (from_angle 0) t)), Some k) \<and>
      wall_hit (Vec2 0 0) (from_angle 0) 1000 ([?w] ! k) = Some t"
    by (simp only: if_False) blast
  then obtain k t where
    k: "k < length [?w]" and
    r: "cast_ray [?w] (Vec2 0 0) 0 1000 = (Some (add (Vec2 0 0) (mul (from_angle 0) t)), Some k)" and
    h: "wall_hit (Vec2 0 0) (from_angle 0) 1000 ([?w] ! k) = Some t"
    by blast
  have k0: "k = 0" using k by simp
  have t5: "t = 5" using h hit unfolding k0 by simp
  have "cast_ray [?w] (Vec2 0 0) 0 1000 = (Some (Vec2 5 0), Some 0)"
    using r unfolding k0 t5 by (simp add: add_def mul_def from_angle_def)
  moreover have "cast_ray [?b] (Vec2 0 0) 0 1000 = (None, None)"
    using conjunct1 [OF cast_ray_closest [of "[?b]" "Vec2 0 0" 0 1000]] miss by simp
  ultimately show ?thesis by simp
qed

subsection \<open>atan2 and the normalised angle\<close>

lemma atan2_range: "- pi < atan2 y x \<and> atan2 y x \<le> pi"
proof -
  have b: "- (pi / 2) < arctan (y / x)" "arctan (y / x) < pi / 2"
    by (rule arctan_lbound, rule arctan_ubound)
  have p: "0 < pi" by simp
  consider "0 < x" | "x < 0" "0 \<le> y" | "x < 0" "y < 0" | "x = 0" by linarith
  then show ?thesis
  proof cases
    case 1
    then show ?thesis using b p by (simp add: atan2_def)
  next
    case 2
    then have "y / x \<le> 0" by (simp add: divide_nonneg_neg)
    then have "arctan (y / x) \<le> 0" using arctan_le_zero_iff by blast
    then show ?thesis using 2 b p by (simp add: atan2_def)
  next
    case 3
    then have "0 < y / x" by (simp add: divide_neg_neg)
    then have "0 < arctan (y / x)" using zero_less_arctan_iff by blast
    then show ?thesis using 3 b p by (simp add: atan2_def)
  next
    case 4
    then have "atan2 y x = pi / 2 \<or> atan2 y x = - (pi / 2) \<or> atan2 y x = 0"
      by (simp add: atan2_def)
    then show ?thesis using pi_gt_zero by (elim disjE) linarith+
  qed
qed

lemma atan2_polar:
  assumes r: "0 < r" and lo: "- pi < a" and hi: "a \<le> pi"
  shows "atan2 (r * sin a) (r * cos a) = a"
proof -
  have quot: "r * sin a / (r * cos a) = tan a"
    using r by (simp add: tan_def)
  consider "- (pi / 2) < a" "a < pi / 2" | "a = pi / 2" | "a = - (pi / 2)"
    | "pi / 2 < a" | "a < - (pi / 2)" by linarith
  then show ?thesis
  proof cases
    case 1
    then have "0 < cos a" by (rule cos_gt_zero_pi)
    then have "0 < r * cos a" using r by simp
    then have "atan2 (r * sin a) (r * cos a) = arctan (r * sin a / (r * cos a))"
      unfolding atan2_def by (simp only: if_True)
    also have "\<dots> = arctan (tan a)" by (simp only: quot)
    also have "\<dots> = a" using 1 by (rule arctan_tan)
    finally show ?thesis .
  next
    case 2
    have "sin a = 1" "cos a = 0" unfolding 2 by simp_all
    then have "atan2 (r * sin a) (r * cos a) = atan2 r 0" by simp
    also have "\<dots> = pi / 2" using r by (simp add: atan2_def)
    finally have v: "atan2 (r * sin a) (r * cos a) = pi / 2" .
    show ?thesis by (rule trans [OF v 2 [symmetric]])
  next
    case 3
    have "sin a = - 1" "cos a = 0" unfolding 3 by simp_all
    then have "atan2 (r * sin a) (r * cos a) = atan2 (- r) 0" by simp
    also have "\<dots> = - (pi / 2)" using r by (simp add: atan2_def)
    finally have v: "atan2 (r * sin a) (r * cos a) = - (pi / 2)" .
    show ?thesis by (rule trans [OF v 3 [symmetric]])
  next
    case 4
    have "0 < cos (a - pi)" by (rule cos_gt_zero_pi) (use 4 hi in simp_all)
    then have c: "cos a < 0" by (simp add: cos_diff)
    have s: "0 \<le> sin a" by (rule sin_ge_zero) (use 4 hi in simp_all)
    have "tan a = tan (a - pi + pi)" by simp
    also have "\<dots> = tan (a - pi)" by (rule tan_periodic_pi)
    finally have t: "arctan (tan a) = a - pi"
      using arctan_tan [of "a - pi"] 4 hi by simp
    have x: "r * cos a < 0" using r c by (simp add: mult_pos_neg)
    then have nx: "\<not> 0 < r * cos a" by simp
    have y: "0 \<le> r * sin a" using r s by simp
    have "atan2 (r * sin a) (r * cos a) = arctan (r * sin a / (r * cos a)) + pi"
      unfolding atan2_def using x nx y by (simp only: if_True if_False)
    also have "\<dots> = arctan (tan a) + pi" by (simp only: quot)
    finally show ?thesis using t by simp
  next
    case 5
    have "0 < cos (a + pi)" by (rule cos_gt_zero_pi) (use 5 lo in simp_all)
    then have c: "cos a < 0" by (simp add: cos_add)
    have "0 < sin (a + pi)" by (rule sin_gt_zero) (use 5 lo in simp_all)
    then have s: "sin a < 0" by (simp add: sin_add)
    have t: "arctan (tan a) = a + pi"
      using arctan_tan [of "a + pi"] 5 lo by simp
    have x: "r * cos a < 0" using r c by (simp add: mult_pos_neg)
    then have nx: "\<not> 0 < r * cos a" by simp
    have "r * sin a < 0" using r s by (simp add: mult_pos_neg)
    then have y: "\<not> 0 \<le> r * sin a" by simp
    have "atan2 (r * sin a) (r * cos a) = arctan (r * sin a / (r * cos a)) - pi"
      unfolding atan2_def using x nx y by (simp only: if_True if_False)
    also have "\<dots> = arctan (tan a) - pi" by (simp only: quot)
    finally show ?thesis using t by simp
  qed
qed

lemma normalize_angle_range: "- pi < normalize_angle a \<and> normalize_angle a \<le> pi"
  unfolding normalize_angle_def by (rule atan2_range)

lemma normalize_angle_id: "- pi < a \<Longrightarrow> a \<le> pi \<Longrightarrow> normalize_angle a = a"
  using atan2_polar [of 1 a] by (simp add: normalize_angle_def)


subsection \<open>The candidate angles that are cast\<close>

lemma unique_loop_members:
  "a \<in> set (unique_loop facing fov full angles seen) \<Longrightarrow>
   (\<exists>a0\<in>set angles. a = normalize_angle a0) \<and>
   (\<not> full \<longrightarrow> \<bar>angle_diff a facing\<bar> \<le> fov / 2)"
  by (induction angles arbitrary: seen) (auto simp: Let_def split: if_splits)

lemma unique_loop_first:
  "full \<or> \<bar>angle_diff (normalize_angle a0) facing\<bar> \<le> fov / 2 \<Longrightarrow>
   normalize_angle a0 \<in> set (unique_loop facing fov full (a0 # angles) {})"
  by (auto simp: Let_def)

lemma set_ordered_angles:
  "set (ordered_angles walls origin facing fov full) =
   set (unique_loop facing fov full (candidate_angles walls origin facing fov full) {})"
  by (auto simp: ordered_angles_def unique_angles_def Let_def image_iff)

lemma ordered_angles_members:
  assumes "a \<in> set (ordered_angles walls origin facing fov full)"
  shows "- pi < a" "a \<le> pi" "\<not> full \<Longrightarrow> \<bar>angle_diff a facing\<bar> \<le> fov / 2"
proof -
  from assms have m: "a \<in> set (unique_loop facing fov full
      (candidate_angles walls origin facing fov full) {})"
    by (simp only: set_ordered_angles)
  from unique_loop_members [OF m] obtain a0 where
    a: "a = normalize_angle a0" and f: "\<not> full \<longrightarrow> \<bar>angle_diff a facing\<bar> \<le> fov / 2"
    by blast
  show "- pi < a" "a \<le> pi" using normalize_angle_range [of a0] a by simp_all
  show "\<not> full \<Longrightarrow> \<bar>angle_diff a facing\<bar> \<le> fov / 2" using f by simp
qed

lemma sorted_ordered_angles_full:
  "sorted (ordered_angles walls origin facing fov True)"
  by (simp add: ordered_angles_def)

lemma sorted_ordered_angles_fov:
  "sorted (map (\<lambda>a. angle_diff a facing) (ordered_angles walls origin facing fov False))"
proof -
  let ?ps = "sort_key fst (map (\<lambda>a. (angle_diff a facing, a))
               (unique_angles walls origin facing fov False))"
  have "\<forall>p\<in>set ?ps. fst p = angle_diff (snd p) facing" by auto
  then have eq: "map (\<lambda>a. angle_diff a facing) (map snd ?ps) = map fst ?ps"
    by (simp add: o_def)
  have srt: "sorted (map fst ?ps)" by (rule sorted_sort_key)
  have "ordered_angles walls origin facing fov False = map snd ?ps"
    by (simp add: ordered_angles_def)
  then show ?thesis using srt by (simp only: eq)
qed

subsection \<open>The casting loop\<close>

lemma cast_all_angles:
  "map fst (fst (cast_all walls origin angles)) =
   filter (\<lambda>a. fst (cast_ray walls origin a max_dist_default) \<noteq> None) angles"
  by (induction angles) (auto split: prod.splits option.splits)

lemma cast_all_points:
  "(a, p) \<in> set (fst (cast_all walls origin angles)) \<longleftrightarrow>
   a \<in> set angles \<and> fst (cast_ray walls origin a max_dist_default) = Some p"
  by (induction angles) (auto split: prod.splits option.splits)

lemma cast_all_hit_walls:
  "k \<in> snd (cast_all walls origin angles) \<longleftrightarrow>
   (\<exists>a\<in>set angles. \<exists>p. cast_ray walls origin a max_dist_default = (Some p, Some k))"
  by (induction angles) (auto split: prod.splits option.splits)

lemma compute_visibility_polygon_points:
  "fst (compute_visibility_polygon walls origin facing fov full) =
   map snd (visibility_points walls origin facing fov full)"
  by (simp add: compute_visibility_polygon_def visibility_points_def split: prod.splits)


lemma vec_length_origin: "vec_length (sub p p) = 0"
  by (simp add: vec_length_def sub_def)




subsection \<open>Two concrete scenes\<close>



lemma cos_eps_lower: "1 / 2 \<le> cos (1 / 1000 :: real)"
proof -
  have "(1 / 1000 :: real) \<le> pi / 3" using pi_ge_two by simp
  moreover have "pi / 3 \<le> pi" by simp
  ultimately have "cos (pi / 3) \<le> cos (1 / 1000)"
    by (intro cos_monotone_0_pi_le) simp_all
  then show ?thesis by (simp add: cos_60)
qed

lemma sin_eps_upper: "0 \<le> sin (1 / 1000 :: real) \<and> sin (1 / 1000 :: real) \<le> 1 / 1000"
proof -
  have "(1 / 1000 :: real) \<le> pi" using pi_ge_two by simp
  then have "0 \<le> sin (1 / 1000 :: real)" by (intro sin_ge_zero) simp_all
  moreover have "sin (1 / 1000 :: real) \<le> 1 / 1000" by (rule sin_x_le_x) simp
  ultimately show ?thesis by simp
qed

lemma first_candidate_kept:
  assumes c: "candidate_angles walls origin facing fov False = a # rest"
    and lo: "- pi < a" and hi: "a \<le> pi"
    and d: "\<bar>angle_diff a facing\<bar> \<le> fov / 2"
  shows "a \<in> set (ordered_angles walls origin facing fov False)"
proof -
  have n: "normalize_angle a = a" using lo hi by (rule normalize_angle_id)
  have "normalize_angle a \<in> set (unique_loop facing fov False (a # rest) {})"
    by (rule unique_loop_first) (use d in \<open>simp add: n\<close>)
  then show ?thesis unfolding set_ordered_angles c n .
qed

lemma visibility_points_member:
  "(a, p) \<in> set (visibility_points walls origin facing fov full) \<longleftrightarrow>
   a \<in> set (ordered_angles walls origin facing fov full) \<and>
   fst (cast_ray walls origin a max_dist_default) = Some p"
  by (simp add: visibility_points_def cast_all_points)





subsection \<open>Field of view\<close>



text \<open>
  Scene B: the wall \<open>(-5,0)-(-5,1)\<close> seen from \<open>(0,0)\<close>, facing \<open>\<pi>\<close> with a field of
  view of \<open>1\<close> radian. The ray at \<open>\<pi> - 0.001\<close> meets it at \<open>(-5, 5 tan 0.001)\<close>.
\<close>

lemma facing_wall_angle:
  "pi - eps \<in> set (ordered_angles [new_wall (Vec2 (- 5) 0) (Vec2 (- 5) 1) False None 0 None]
       (Vec2 0 0) pi 1 False)"
proof (rule first_candidate_kept)
  show "candidate_angles [new_wall (Vec2 (- 5) 0) (Vec2 (- 5) 1) False None 0 None] (Vec2 0 0) pi 1 False
      = (pi - eps) # [pi, pi + eps] @
        point_angles (Vec2 0 0) (Vec2 (- 5) 1) @ sample_angles pi 1 False"
    by (simp add: candidate_angles_def point_angles_def new_wall_def sub_def atan2_def Let_def)
  show "- pi < pi - eps" "pi - eps \<le> pi" using pi_ge_two by (simp_all add: eps_def)
  have "angle_diff (pi - eps) pi = pi - eps - pi"
    by (rule angle_diff_in_range) (use pi_ge_two in \<open>simp_all add: eps_def\<close>)
  then show "\<bar>angle_diff (pi - eps) pi\<bar> \<le> 1 / 2" by (simp add: eps_def)
qed

lemma facing_wall_intersection:
  "ray_segment_intersection (Vec2 0 0) (from_angle (pi - eps)) (Vec2 (- 5) 0) (Vec2 (- 5) 1)
     = Some (5 / cos eps, 5 * sin eps / cos eps)"
proof -
  have c: "1 / 2 \<le> cos eps" unfolding eps_def by (rule cos_eps_lower)
  then have abs: "\<not> \<bar>cos eps\<bar> < 1 / 1000000" by simp
  have pos: "\<not> 5 / cos eps < 0" using c by simp
  show ?thesis
    using abs pos
    by (simp add: ray_segment_intersection_def from_angle_def sub_def cross_def Let_def)
qed

lemma facing_wall_cast:
  "cast_ray [new_wall (Vec2 (- 5) 0) (Vec2 (- 5) 1) False None 0 None] (Vec2 0 0) (pi - eps)
     max_dist_default = (Some (Vec2 (- 5) (5 * tan eps)), Some 0)"
proof -
  have c: "1 / 2 \<le> cos eps" unfolding eps_def by (rule cos_eps_lower)
  have s: "0 \<le> sin eps" "sin eps \<le> 1 / 1000" using sin_eps_upper unfolding eps_def by simp_all
  have t0: "0 \<le> 5 / cos eps" using c by simp
  have t1: "5 / cos eps < 1000" using c by (simp add: field_simps)
  have u0: "0 \<le> 5 * sin eps / cos eps" using c s by simp
  have u1: "5 * sin eps / cos eps \<le> 1" using c s by (simp add: field_simps)
  have nz: "cos eps \<noteq> 0" using c by auto
  have p: "add (Vec2 0 0) (mul (from_angle (pi - eps)) (5 / cos eps)) = Vec2 (- 5) (5 * tan eps)"
    using nz by (simp add: add_def mul_def from_angle_def tan_def)
  show ?thesis
    using t0 t1 u0 u1
    by (simp add: cast_ray_def cast_ray_state_def cast_ray_step_def new_wall_def
        facing_wall_intersection max_dist_default_def p)
qed

lemma facing_wall_point:
  "(pi - eps, Vec2 (- 5) (5 * tan eps)) \<in> set (visibility_points
      [new_wall (Vec2 (- 5) 0) (Vec2 (- 5) 1) False None 0 None] (Vec2 0 0) pi 1 False)"
  unfolding visibility_points_member
  using facing_wall_angle by (simp add: facing_wall_cast)



subsection \<open>Order of the returned points\<close>

text \<open>
  C4. The returned points are the second components of \<open>visibility_points\<close>, the list
  \<open>points\<close> of the source, whose entries pair a normalised ray angle with the hit
  point of that ray. In 360 degree mode the entries are in ascending order of the
  angle; in FOV mode they are in ascending order of
  \<open>angle_diff angle facing_angle\<close>, not of the angle itself.
\<close>

theorem visibility_points_ordered:
  "fst (compute_visibility_polygon walls origin facing fov full) =
     map snd (visibility_points walls origin facing fov full) \<and>
   (\<forall>(a, p)\<in>set (visibility_points walls origin facing fov full).
      fst (cast_ray walls origin a max_dist_default) = Some p \<and> - pi < a \<and> a \<le> pi) \<and>
   sorted (map fst (visibility_points walls origin facing fov True)) \<and>
   sorted (map (\<lambda>(a, p). angle_diff a facing) (visibility_points walls origin facing fov False))"
proof (intro conjI)
  show "fst (compute_visibility_polygon walls origin facing fov full) =
     map snd (visibility_points walls origin facing fov full)"
    by (rule compute_visibility_polygon_points)
  show "\<forall>(a, p)\<in>set (visibility_points walls origin facing fov full).
      fst (cast_ray walls origin a max_dist_default) = Some p \<and> - pi < a \<and> a \<le> pi"
    using ordered_angles_members(1,2) by (auto simp: visibility_points_member)
  have ang: "map fst (visibility_points walls origin facing fov b) =
      filter (\<lambda>a. fst (cast_ray walls origin a max_dist_default) \<noteq> None)
        (ordered_angles walls origin facing fov b)" for b
    by (simp add: visibility_points_def cast_all_angles)
  show "sorted (map fst (visibility_points walls origin facing fov True))"
    unfolding ang
    using sorted_filter [of "\<lambda>a. a" "ordered_angles walls origin facing fov True"]
      sorted_ordered_angles_full [of walls origin facing fov]
    by simp
  have "map (\<lambda>(a, p). angle_diff a facing) (visibility_points walls origin facing fov False) =
      map (\<lambda>a. angle_diff a facing) (map fst (visibility_points walls origin facing fov False))"
    by (simp add: case_prod_unfold o_def)
  moreover have "sorted (map (\<lambda>a. angle_diff a facing)
      (filter (\<lambda>a. fst (cast_ray walls origin a max_dist_default) \<noteq> None)
        (ordered_angles walls origin facing fov False)))"
    using sorted_ordered_angles_fov by (rule sorted_filter)
  ultimately show "sorted (map (\<lambda>(a, p). angle_diff a facing)
      (visibility_points walls origin facing fov False))"
    by (simp only: ang)
qed

theorem visibility_points_ordered_witness:
  "(pi - eps, Vec2 (- 5) (5 * tan eps)) \<in> set (visibility_points
      [new_wall (Vec2 (- 5) 0) (Vec2 (- 5) 1) False None 0 None] (Vec2 0 0) pi 1 False) \<and>
   fst (cast_ray [new_wall (Vec2 (- 5) 0) (Vec2 (- 5) 1) False None 0 None] (Vec2 0 0)
      (pi - eps) max_dist_default) = Some (Vec2 (- 5) (5 * tan eps)) \<and>
   - pi < pi - eps \<and> pi - eps \<le> pi"
  using visibility_points_ordered
    [of "[new_wall (Vec2 (- 5) 0) (Vec2 (- 5) 1) False None 0 None]" "Vec2 0 0" pi 1 False]
    facing_wall_point
  by auto

subsection \<open>A scene without walls\<close>




subsection \<open>Errors and loops that do not end\<close>

text \<open>The fuel of the two loops on a finite difference.\<close>

lemma up_steps_decrease: "d \<le> - pi \<Longrightarrow> up_steps (d + 2 * pi) < up_steps d"
proof -
  assume le: "d \<le> - pi"
  have "(- pi - (d + 2 * pi)) / (2 * pi) = (- pi - d) / (2 * pi) - 1"
    by (simp add: field_simps)
  then have fl: "\<lfloor>(- pi - (d + 2 * pi)) / (2 * pi)\<rfloor> = \<lfloor>(- pi - d) / (2 * pi)\<rfloor> - 1"
    by (simp only: floor_diff_one)
  have nonneg: "0 \<le> \<lfloor>(- pi - d) / (2 * pi)\<rfloor>"
    using le by simp
  show ?thesis
    unfolding up_steps_def fl using nonneg by linarith
qed

lemma down_steps_decrease: "pi < d \<Longrightarrow> down_steps (d - pi * 2) < down_steps d"
proof -
  assume less: "pi < d"
  have "(d - pi * 2 - pi) / (2 * pi) = (d - pi) / (2 * pi) - 1"
    by (simp add: field_simps)
  then have fl: "\<lfloor>(d - pi * 2 - pi) / (2 * pi)\<rfloor> = \<lfloor>(d - pi) / (2 * pi)\<rfloor> - 1"
    by (simp only: floor_diff_one)
  have nonneg: "0 \<le> \<lfloor>(d - pi) / (2 * pi)\<rfloor>"
    using less by simp
  show ?thesis
    unfolding down_steps_def fl using nonneg by linarith
qed

lemma angle_diff_up_fuel_finite:
  "up_steps d < n \<Longrightarrow> angle_diff_up_fuel n (Finite d) = Some (Finite (angle_diff_up d))"
proof (induction n arbitrary: d)
  case 0
  then show ?case by simp
next
  case (Suc n)
  show ?case
  proof (cases "d \<le> - pi")
    case True
    have "up_steps (d + 2 * pi) < n"
      using up_steps_decrease [OF True] Suc.prems by linarith
    from Suc.IH [OF this] show ?thesis
      using True by (simp add: angle_diff_up_step)
  next
    case False
    then show ?thesis by (simp add: angle_diff_up_stop)
  qed
qed

lemma angle_diff_down_fuel_finite:
  "down_steps d < n \<Longrightarrow> angle_diff_down_fuel n (Finite d) = Some (Finite (angle_diff_down d))"
proof (induction n arbitrary: d)
  case 0
  then show ?case by simp
next
  case (Suc n)
  show ?case
  proof (cases "pi < d")
    case True
    have "down_steps (d - pi * 2) < n"
      using down_steps_decrease [OF True] Suc.prems by linarith
    from Suc.IH [OF this] show ?thesis
      using True by (simp add: angle_diff_down_step less_pyfloat_def)
  next
    case False
    then show ?thesis by (simp add: angle_diff_down_stop less_pyfloat_def)
  qed
qed

lemma floor_ratio_bound:
  assumes "x \<le> \<bar>f\<bar>"
  shows "\<lfloor>x / (2 * pi)\<rfloor> \<le> \<lceil>\<bar>f\<bar> / (2 * pi)\<rceil>"
proof -
  have "x / (2 * pi) \<le> \<bar>f\<bar> / (2 * pi)"
    using assms by (simp add: divide_right_mono)
  then have "\<lfloor>x / (2 * pi)\<rfloor> \<le> \<lfloor>\<bar>f\<bar> / (2 * pi)\<rfloor>" by (rule floor_mono)
  also have "\<dots> \<le> \<lceil>\<bar>f\<bar> / (2 * pi)\<rceil>" by (rule floor_le_ceiling)
  finally show ?thesis .
qed

lemma fuel_bound_up:
  assumes "- pi < a"
  shows "up_steps (a - f) < fuel_bound f"
proof -
  have "- pi - (a - f) \<le> \<bar>f\<bar>" using assms by linarith
  from floor_ratio_bound [OF this]
  show ?thesis unfolding up_steps_def fuel_bound_def by linarith
qed

lemma fuel_bound_down:
  assumes "a \<le> pi"
  shows "down_steps (angle_diff_up (a - f)) < fuel_bound f"
proof (cases "a - f \<le> pi")
  case True
  then have "angle_diff_up (a - f) \<le> pi" using angle_diff_up_result [of "a - f"] by blast
  then have "angle_diff_up (a - f) - pi \<le> \<bar>f\<bar>" by linarith
  from floor_ratio_bound [OF this]
  show ?thesis unfolding down_steps_def fuel_bound_def by linarith
next
  case False
  then have "- pi < a - f" using pi_gt_zero by linarith
  then have eq: "angle_diff_up (a - f) = a - f" by (rule angle_diff_up_stop)
  have "a - f - pi \<le> \<bar>f\<bar>" using assms by linarith
  from floor_ratio_bound [OF this]
  show ?thesis unfolding down_steps_def fuel_bound_def eq by linarith
qed

lemma angle_diff_fuel_finite:
  assumes "fuel_bound f \<le> n" "- pi < a" "a \<le> pi"
  shows "angle_diff_fuel n a (Finite f) = Some (Finite (angle_diff a f))"
proof -
  have u: "up_steps (a - f) < n" using fuel_bound_up [OF assms(2), of f] assms(1) by linarith
  have d: "down_steps (angle_diff_up (a - f)) < n"
    using fuel_bound_down [OF assms(3), of f] assms(1) by linarith
  show ?thesis
    by (simp add: angle_diff_fuel_def angle_diff_up_fuel_finite [OF u]
        angle_diff_down_fuel_finite [OF d] angle_diff_def)
qed

lemma angle_diff_up_fuel_neg_inf: "angle_diff_up_fuel n NegInf = None"
  by (induction n) simp_all

lemma angle_diff_down_fuel_pos_inf: "angle_diff_down_fuel n PosInf = None"
  by (induction n) (simp_all add: less_pyfloat_def)

lemma angle_diff_fuel_infinite:
  "angle_diff_fuel n a PosInf = None" "angle_diff_fuel n a NegInf = None"
proof -
  show "angle_diff_fuel n a PosInf = None"
    by (simp add: angle_diff_fuel_def angle_diff_up_fuel_neg_inf)
  show "angle_diff_fuel n a NegInf = None"
    by (cases n) (simp_all add: angle_diff_fuel_def angle_diff_down_fuel_pos_inf)
qed

lemma unique_loop_float_finite_full:
  "unique_loop_float n facing fov True (map Finite angles) seen =
     Some (Inr (unique_loop f fov True angles seen))"
  by (induction angles arbitrary: seen) (simp_all add: Let_def keep_angle_def normalize_angle_def)

lemma unique_loop_float_finite_fov:
  "fuel_bound f \<le> n \<Longrightarrow>
   unique_loop_float n (Finite f) fov False (map Finite angles) seen =
     Some (Inr (unique_loop f fov False angles seen))"
proof (induction angles arbitrary: seen)
  case Nil
  then show ?case by simp
next
  case (Cons a0 angles)
  have r: "- pi < normalize_angle a0" "normalize_angle a0 \<le> pi"
    using normalize_angle_range [of a0] by simp_all
  have d: "angle_diff_fuel n (atan2 (sin a0) (cos a0)) (Finite f) =
      Some (Finite (angle_diff (atan2 (sin a0) (cos a0)) f))"
    using angle_diff_fuel_finite [OF Cons.prems r] by (simp add: normalize_angle_def)
  show ?case
    using Cons.IH [OF Cons.prems]
    by (simp add: Let_def d keep_angle_def normalize_angle_def less_pyfloat_def)
qed

lemma unique_loop_float_finite:
  "fuel_bound f \<le> n \<Longrightarrow>
   unique_loop_float n (Finite f) fov full (map Finite angles) seen =
     Some (Inr (unique_loop f fov full angles seen))"
  by (cases full) (simp_all add: unique_loop_float_finite_full unique_loop_float_finite_fov)















end
